theory Spec2Isabelle
  imports
    Complex_Main
    "HOL-Library.Char_ord"
    "HOL-Library.List_Lexorder"
    "HOL-Library.Sublist"
    "HOL-Library.Multiset"
begin

section \<open>Data model\<close>

text \<open>
  The script \<^verbatim>\<open>Task6_dashboard.py\<close> works on a pandas DataFrame. A DataFrame is modelled
  as its header (the column names, in order) and its rows, each row a list of cells
  aligned with the header. A cell is null (\<^verbatim>\<open>NaN\<close>, \<^verbatim>\<open>None\<close>, \<^verbatim>\<open>NaT\<close>), a number, a text
  or a timestamp. Numbers are exact rationals: the rounding of floating-point addition is
  not modelled. Timestamps are integers (pandas counts nanoseconds since the epoch).

  The file is read with \<^verbatim>\<open>encoding="ISO-8859-1"\<close>, so every character of a column name
  is one of the 256 Latin-1 code points: exactly a HOL \<^typ>\<open>char\<close>.
\<close>

datatype cell = Null | Num rat | Text string | Date int

record dataframe =
  columns :: "string list"
  rows :: "cell list list"

text \<open>
  \<^verbatim>\<open>df[c]\<close> reads a column by name. A name is looked up at its first position in the
  header; a header in which two names are equal is outside the model (pandas then
  returns a frame, not a column). A DataFrame is rectangular; the model reads a cell
  beyond the end of a row as null, so that every function below is total.
\<close>

definition get_loc :: "string list \<Rightarrow> string \<Rightarrow> nat" where
  "get_loc cols c = length (takeWhile (\<lambda>x. x \<noteq> c) cols)"

definition cell_at :: "dataframe \<Rightarrow> string \<Rightarrow> cell list \<Rightarrow> cell" where
  "cell_at df c r = (let i = get_loc (columns df) c in if i < length r then r ! i else Null)"

definition column :: "dataframe \<Rightarrow> string \<Rightarrow> cell list" where
  "column df c = map (cell_at df c) (rows df)"

section \<open>Loader\<close>

subsection \<open>Column-name normalization (lines 27 to 30)\<close>

text \<open>
  \<^verbatim>\<open>cols = df.columns.str.replace(r"\.", " ", regex=True)
              .str.replace(r"\s+", " ", regex=True).str.strip()\<close>

  The regular expression \<^verbatim>\<open>\s\<close> on a Python \<^verbatim>\<open>str\<close> and \<^verbatim>\<open>str.strip()\<close> use the same
  whitespace class; in Latin-1 it is: tab, line feed, vertical tab, form feed, carriage
  return, the four separators 0x1C to 0x1F, space, next line 0x85 and no-break space 0xA0.
\<close>

definition is_space :: "char \<Rightarrow> bool" where
  "is_space c = (of_char c \<in> {9, 10, 11, 12, 13, 28, 29, 30, 31, 32, 133, 160 :: nat})"

definition replace_dots :: "string \<Rightarrow> string" where
  "replace_dots s = map (\<lambda>c. if c = CHR ''.'' then CHR '' '' else c) s"

text \<open>\<^verbatim>\<open>re.sub(r"\s+", " ", s)\<close>: every maximal run of whitespace becomes one space.\<close>

function collapse_spaces :: "string \<Rightarrow> string" where
  "collapse_spaces [] = []"
| "collapse_spaces (c # cs) =
     (if is_space c then CHR '' '' # collapse_spaces (dropWhile is_space cs)
      else c # collapse_spaces cs)"
  by pat_completeness auto
termination
  by (relation "measure length") (auto simp: length_dropWhile_le less_Suc_eq_le)

definition strip :: "string \<Rightarrow> string" where
  "strip s = rev (dropWhile is_space (rev (dropWhile is_space s)))"

definition normalize_name :: "string \<Rightarrow> string" where
  "normalize_name s = strip (collapse_spaces (replace_dots s))"

text \<open>\<^verbatim>\<open>df.rename(columns={"Sub Category": "Sub-Category"})\<close>\<close>

definition rename_column :: "string \<Rightarrow> string" where
  "rename_column c = (if c = ''Sub Category'' then ''Sub-Category'' else c)"

definition normalize_columns :: "string list \<Rightarrow> string list" where
  "normalize_columns cols = map rename_column (map normalize_name cols)"

subsection \<open>Locating the file (lines 11 to 25)\<close>

text \<open>
  A path is the list of its parts. The loader reads its surroundings: the directory of
  the script (\<^verbatim>\<open>Path(__file__).parent\<close>), which paths exist, what \<^verbatim>\<open>pd.read_csv\<close> returns
  for a path, and the date parser of \<^verbatim>\<open>pd.to_datetime\<close>. They are the fields of the
  environment. The parser is given the whole column besides the cell, since pandas may
  infer the date format from the column. A file that exists and that \<^verbatim>\<open>pd.read_csv\<close>
  rejects is outside the model.
\<close>

type_synonym path = "string list"

record env =
  app_dir :: path
  path_exists :: "path \<Rightarrow> bool"
  read_csv :: "path \<Rightarrow> dataframe"
  parse_date :: "cell list \<Rightarrow> cell \<Rightarrow> int option"

datatype error =
    FileNotFoundError string
  | KeyError "string list" "string list"

definition candidates :: "path \<Rightarrow> path list" where
  "candidates here =
     [here @ [''superstore.csv''],
      here @ [''data'', ''superstore.csv''],
      [''superstore.csv''],
      [''data'', ''superstore.csv'']]"

definition not_found_message :: string where
  "not_found_message =
     ''Could not find 'superstore.csv'. Place it in the same folder as this app '' @
     ''or inside a 'data/' folder in the repo.''"

subsection \<open>Validation and cleaning (lines 32 to 43)\<close>

definition required :: "string list" where
  "required =
     [''Sales'', ''Profit'', ''Order Date'', ''Region'', ''Category'', ''Sub-Category'',
      ''Customer Name'']"

text \<open>\<^verbatim>\<open>df.dropna(subset=...)\<close> keeps the rows that are null in none of the named columns.\<close>

definition dropna :: "string list \<Rightarrow> dataframe \<Rightarrow> dataframe" where
  "dropna subset_cols df =
     df\<lparr>rows := filter (\<lambda>r. list_all (\<lambda>c. cell_at df c r \<noteq> Null) subset_cols) (rows df)\<rparr>"

text \<open>
  \<^verbatim>\<open>pd.to_datetime(col, errors="coerce")\<close>: a null stays null, a value the parser
  rejects becomes null (\<^verbatim>\<open>NaT\<close>), any other value becomes its timestamp.
\<close>

definition to_datetime :: "(cell list \<Rightarrow> cell \<Rightarrow> int option) \<Rightarrow> cell list \<Rightarrow> cell list" where
  "to_datetime parse col =
     map (\<lambda>c. if c = Null then Null
              else (case parse col c of Some t \<Rightarrow> Date t | None \<Rightarrow> Null)) col"

text \<open>\<^verbatim>\<open>df[c] = vals\<close> for a column that exists: each row gets its new cell.\<close>

definition set_column :: "string \<Rightarrow> cell list \<Rightarrow> dataframe \<Rightarrow> dataframe" where
  "set_column c vals df =
     df\<lparr>rows := map (\<lambda>(r, v). r[get_loc (columns df) c := v]) (zip (rows df) vals)\<rparr>"

definition clean :: "(cell list \<Rightarrow> cell \<Rightarrow> int option) \<Rightarrow> dataframe \<Rightarrow> dataframe" where
  "clean parse df0 =
     (let df = dropna [''Sales'', ''Profit''] df0;
          df = set_column ''Order Date'' (to_datetime parse (column df ''Order Date'')) df;
          df = dropna [''Order Date''] df
      in df)"

text \<open>
  What the loader does with the frame it has read: normalize the header, check the
  required columns, clean the rows.
\<close>

definition load_frame :: "(cell list \<Rightarrow> cell \<Rightarrow> int option) \<Rightarrow> dataframe \<Rightarrow> error + dataframe" where
  "load_frame parse df0 =
     (let df = df0\<lparr>columns := normalize_columns (columns df0)\<rparr>;
          missing = filter (\<lambda>c. c \<notin> set (columns df)) required
      in if missing \<noteq> [] then Inl (KeyError missing (columns df))
         else Inr (clean parse df))"

definition load_data :: "env \<Rightarrow> error + dataframe" where
  "load_data e =
     (case find (path_exists e) (candidates (app_dir e)) of
        None \<Rightarrow> Inl (FileNotFoundError not_found_message)
      | Some csv_path \<Rightarrow> load_frame (parse_date e) (read_csv e csv_path))"

section \<open>Filter stage (lines 52 to 69)\<close>

text \<open>
  Region, Category, Sub-Category and Customer Name are text columns: a cell of them is a
  text or null. The options of a filter and the user's selection are lists of texts,
  and the groups of a text column are keyed by texts; the groups of Order Date are keyed
  by timestamps. A cell of another kind in such a column is outside the model (it is
  read as having no key).
\<close>

definition text_key :: "cell \<Rightarrow> string option" where
  "text_key x = (case x of Text s \<Rightarrow> Some s | _ \<Rightarrow> None)"

definition date_key :: "cell \<Rightarrow> int option" where
  "date_key x = (case x of Date t \<Rightarrow> Some t | _ \<Rightarrow> None)"

text \<open>\<^verbatim>\<open>sorted(df[c].dropna().unique().tolist())\<close>: the options and the default selection.\<close>

definition options :: "dataframe \<Rightarrow> string \<Rightarrow> string list" where
  "options df c = sort (remdups (List.map_filter text_key (column df c)))"

text \<open>\<^verbatim>\<open>df[df[c].isin(vals)]\<close>\<close>

definition isin :: "cell \<Rightarrow> string list \<Rightarrow> bool" where
  "isin x vals = (case text_key x of Some s \<Rightarrow> s \<in> set vals | None \<Rightarrow> False)"

definition select_isin :: "string \<Rightarrow> string list \<Rightarrow> dataframe \<Rightarrow> dataframe" where
  "select_isin c vals df = df\<lparr>rows := filter (\<lambda>r. isin (cell_at df c r) vals) (rows df)\<rparr>"

definition filtered_df ::
  "dataframe \<Rightarrow> string list \<Rightarrow> string list \<Rightarrow> string list \<Rightarrow> dataframe" where
  "filtered_df df region_filter category_filter sub_category_filter =
     (let f = df;
          f = (if region_filter \<noteq> [] then select_isin ''Region'' region_filter f else f);
          f = (if category_filter \<noteq> [] then select_isin ''Category'' category_filter f else f);
          f = (if sub_category_filter \<noteq> [] then select_isin ''Sub-Category'' sub_category_filter f
               else f)
      in f)"

section \<open>Aggregates (lines 73 to 112)\<close>

text \<open>\<^verbatim>\<open>df[c].sum()\<close> skips nulls.\<close>

definition num_of :: "cell \<Rightarrow> rat" where
  "num_of x = (case x of Num q \<Rightarrow> q | _ \<Rightarrow> 0)"

definition col_sum :: "dataframe \<Rightarrow> string \<Rightarrow> rat" where
  "col_sum df c = sum_list (map num_of (column df c))"

text \<open>
  \<^verbatim>\<open>df.groupby(c, as_index=False)\<close> with the defaults \<^verbatim>\<open>sort=True\<close> and \<^verbatim>\<open>dropna=True\<close>: one
  group for each distinct key that is not null, the groups in ascending order of their
  keys, each group holding the rows with its key.
\<close>

definition group_keys :: "(cell \<Rightarrow> 'k::linorder option) \<Rightarrow> dataframe \<Rightarrow> string \<Rightarrow> 'k list" where
  "group_keys key df c = sort (remdups (List.map_filter key (column df c)))"

definition group_of :: "(cell \<Rightarrow> 'k option) \<Rightarrow> dataframe \<Rightarrow> string \<Rightarrow> 'k \<Rightarrow> dataframe" where
  "group_of key df c k = df\<lparr>rows := filter (\<lambda>r. key (cell_at df c r) = Some k) (rows df)\<rparr>"

text \<open>
  \<^verbatim>\<open>sort_values\<close> is modelled by the stable insertion sort of the library; pandas does
  not promise the order of rows with equal sort keys.
\<close>

definition groupby_sum ::
  "(cell \<Rightarrow> 'k::linorder option) \<Rightarrow> dataframe \<Rightarrow> string \<Rightarrow> string \<Rightarrow> ('k \<times> rat) list" where
  "groupby_sum key df c v = map (\<lambda>k. (k, col_sum (group_of key df c k) v)) (group_keys key df c)"

definition top_customers :: "dataframe \<Rightarrow> (string \<times> rat) list" where
  "top_customers f =
     take 5
       (sort_key (\<lambda>(k, sales). - sales) (groupby_sum text_key f ''Customer Name'' ''Sales''))"

definition category_summary :: "dataframe \<Rightarrow> (string \<times> rat \<times> rat) list" where
  "category_summary f =
     sort_key (\<lambda>(k, sales, profit). - sales)
       (map (\<lambda>k. (k, col_sum (group_of text_key f ''Category'' k) ''Sales'',
                      col_sum (group_of text_key f ''Category'' k) ''Profit''))
          (group_keys text_key f ''Category''))"

definition sales_time :: "dataframe \<Rightarrow> (int \<times> rat) list" where
  "sales_time f =
     sort_key (\<lambda>(k, sales). k) (groupby_sum date_key f ''Order Date'' ''Sales'')"

section \<open>The script\<close>

record summary_report =
  total_sales :: rat
  total_profit :: rat
  top5 :: "(string \<times> rat) list"
  by_category :: "(string \<times> rat \<times> rat) list"
  over_time :: "(int \<times> rat) list"

definition report :: "dataframe \<Rightarrow> summary_report" where
  "report f =
     \<lparr>total_sales = col_sum f ''Sales'',
      total_profit = col_sum f ''Profit'',
      top5 = top_customers f,
      by_category = category_summary f,
      over_time = sales_time f\<rparr>"

text \<open>\<^verbatim>\<open>df.empty\<close>: true when the frame has no rows or no columns.\<close>

definition empty_df :: "dataframe \<Rightarrow> bool" where
  "empty_df df = (rows df = [] \<or> columns df = [])"

definition no_data_warning :: string where
  "no_data_warning = ''No data matches the selected filters. Please adjust your selections.''"

text \<open>
  One run of the script: \<^verbatim>\<open>st.error\<close> and \<^verbatim>\<open>st.stop()\<close> when loading fails, \<^verbatim>\<open>st.warning\<close>
  and \<^verbatim>\<open>st.stop()\<close> when the filtered frame is empty, the metrics and the three charts
  otherwise.
\<close>

datatype page =
    LoadFailed error
  | Warning string
  | Dashboard summary_report

definition script :: "env \<Rightarrow> string list \<Rightarrow> string list \<Rightarrow> string list \<Rightarrow> page" where
  "script e region_filter category_filter sub_category_filter =
     (case load_data e of
        Inl err \<Rightarrow> LoadFailed err
      | Inr df \<Rightarrow>
          (let f = filtered_df df region_filter category_filter sub_category_filter
           in if empty_df f then Warning no_data_warning else Dashboard (report f)))"

section \<open>Auxiliary notions\<close>

text \<open>
  A column name is tidy when it has no dot, its only whitespace is the space character,
  no two whitespace characters are adjacent, and it neither starts nor ends with
  whitespace. The normalized names turn out to be exactly of this shape.
\<close>

definition tidy :: "string \<Rightarrow> bool" where
  "tidy s =
     (CHR ''.'' \<notin> set s \<and>
      list_all (\<lambda>c. is_space c \<longrightarrow> c = CHR '' '') s \<and>
      successively (\<lambda>a b. \<not> (is_space a \<and> is_space b)) s \<and>
      (s = [] \<or> (\<not> is_space (hd s) \<and> \<not> is_space (last s))))"

section \<open>A sample run\<close>

text \<open>
  A small file in the dotted naming style, found in the \<^verbatim>\<open>data/\<close> folder of the working
  directory. Row 4 has no Sales, row 5 has a date that does not parse, and row 6 has
  neither Region nor Category. Timestamps are written as day numbers.
\<close>

definition sample_csv :: dataframe where
  "sample_csv =
     \<lparr>columns =
        [''Order.Date'', ''Region'', ''Category'', ''Sub.Category'', ''Customer.Name'',
         '' Sales'', ''Profit''],
      rows =
        [[Text ''2021-01-01'', Text ''East'', Text ''Tech'', Text ''Phones'', Text ''A'',
          Num 100, Num 10],
         [Text ''2021-01-02'', Text ''West'', Text ''Tech'', Text ''Phones'', Text ''B'',
          Num 200, Num (- 5)],
         [Text ''2021-01-01'', Text ''East'', Text ''Furniture'', Text ''Chairs'', Text ''A'',
          Num 50, Num 5],
         [Text ''2021-01-03'', Text ''East'', Text ''Tech'', Text ''Phones'', Text ''C'',
          Null, Num 1],
         [Text ''n/a'', Text ''West'', Text ''Tech'', Text ''Phones'', Text ''B'',
          Num 30, Num 3],
         [Text ''2021-01-03'', Null, Null, Text ''Chairs'', Text ''C'',
          Num 7, Num 1]]\<rparr>"

definition sample_parse :: "cell list \<Rightarrow> cell \<Rightarrow> int option" where
  "sample_parse col x =
     (if x = Text ''2021-01-01'' then Some 18628
      else if x = Text ''2021-01-02'' then Some 18629
      else if x = Text ''2021-01-03'' then Some 18630
      else None)"

definition sample_env :: env where
  "sample_env =
     \<lparr>app_dir = [''app''],
      path_exists = (\<lambda>p. p = [''data'', ''superstore.csv'']),
      read_csv = (\<lambda>p. sample_csv),
      parse_date = sample_parse\<rparr>"

text \<open>What the loader returns for the sample.\<close>

definition sample_df :: dataframe where
  "sample_df =
     \<lparr>columns =
        [''Order Date'', ''Region'', ''Category'', ''Sub-Category'', ''Customer Name'',
         ''Sales'', ''Profit''],
      rows =
        [[Date 18628, Text ''East'', Text ''Tech'', Text ''Phones'', Text ''A'',
          Num 100, Num 10],
         [Date 18629, Text ''West'', Text ''Tech'', Text ''Phones'', Text ''B'',
          Num 200, Num (- 5)],
         [Date 18628, Text ''East'', Text ''Furniture'', Text ''Chairs'', Text ''A'',
          Num 50, Num 5],
         [Date 18630, Null, Null, Text ''Chairs'', Text ''C'',
          Num 7, Num 1]]\<rparr>"

text \<open>A file that lacks the Region column.\<close>

definition no_region_csv :: dataframe where
  "no_region_csv =
     \<lparr>columns = [''Order.Date'', ''Category'', ''Sub Category'', ''Customer Name'', ''Sales'',
                 ''Profit'', ''Row ID''],
      rows = []\<rparr>"

section \<open>Normalization is idempotent\<close>

lemma is_space_blank: "is_space (CHR '' '')"
  by (simp add: is_space_def)

lemma dot_not_space: "\<not> is_space (CHR ''.'')"
  by (simp add: is_space_def)

lemma replace_dots_no_dot: "CHR ''.'' \<notin> set (replace_dots s)"
  by (auto simp: replace_dots_def)

lemma replace_dots_id: "CHR ''.'' \<notin> set s \<Longrightarrow> replace_dots s = s"
  by (induction s) (auto simp: replace_dots_def)

lemma set_collapse_spaces: "set (collapse_spaces s) \<subseteq> insert (CHR '' '') (set s)"
proof (induction s rule: collapse_spaces.induct)
  case 1
  show ?case by simp
next
  case (2 c cs)
  have "set (dropWhile is_space cs) \<subseteq> set cs"
    by (simp add: set_dropWhileD subsetI)
  with 2 show ?case by auto
qed

lemma collapse_spaces_blank:
  "x \<in> set (collapse_spaces s) \<Longrightarrow> is_space x \<Longrightarrow> x = CHR '' ''"
proof (induction s rule: collapse_spaces.induct)
  case 1
  then show ?case by simp
next
  case (2 c cs)
  then show ?case by (auto split: if_splits)
qed

lemma hd_collapse_spaces:
  "s \<noteq> [] \<Longrightarrow> \<not> is_space (hd s) \<Longrightarrow> collapse_spaces s \<noteq> [] \<and> hd (collapse_spaces s) = hd s"
  by (cases s) auto

lemma collapse_spaces_successively:
  "successively (\<lambda>a b. \<not> (is_space a \<and> is_space b)) (collapse_spaces s)"
proof (induction s rule: collapse_spaces.induct)
  case 1
  show ?case by simp
next
  case (2 c cs)
  show ?case
  proof (cases "is_space c")
    case True
    let ?r = "dropWhile is_space cs"
    have ih: "successively (\<lambda>a b. \<not> (is_space a \<and> is_space b)) (collapse_spaces ?r)"
      using 2(1) True by simp
    have "collapse_spaces ?r = [] \<or> \<not> is_space (hd (collapse_spaces ?r))"
    proof (cases "?r = []")
      case True
      then have "collapse_spaces ?r = []" by (simp only: collapse_spaces.simps)
      then show ?thesis by blast
    next
      case False
      then have "\<not> is_space (hd ?r)" by (rule hd_dropWhile)
      with False show ?thesis using hd_collapse_spaces by metis
    qed
    with ih True show ?thesis by (auto simp: successively_Cons)
  next
    case False
    with 2(2) show ?thesis by (auto simp: successively_Cons)
  qed
qed

lemma collapse_spaces_id:
  "list_all (\<lambda>c. is_space c \<longrightarrow> c = CHR '' '') s \<Longrightarrow>
   successively (\<lambda>a b. \<not> (is_space a \<and> is_space b)) s \<Longrightarrow> collapse_spaces s = s"
proof (induction s rule: collapse_spaces.induct)
  case 1
  show ?case by simp
next
  case (2 c cs)
  show ?case
  proof (cases "is_space c")
    case True
    from 2(4) True have nx: "cs = [] \<or> \<not> is_space (hd cs)"
      by (auto simp: successively_Cons)
    then have dw: "dropWhile is_space cs = cs"
      by (simp add: dropWhile_eq_self_iff)
    from 2(3) True have c: "c = CHR '' ''" by simp
    from 2(3) have a: "list_all (\<lambda>c. is_space c \<longrightarrow> c = CHR '' '') cs" by simp
    from 2(4) have s: "successively (\<lambda>a b. \<not> (is_space a \<and> is_space b)) cs"
      by (auto simp: successively_Cons)
    from 2(1)[OF True] a s dw have "collapse_spaces cs = cs" by simp
    with True c dw show ?thesis by simp
  next
    case False
    from 2(3) have a: "list_all (\<lambda>c. is_space c \<longrightarrow> c = CHR '' '') cs" by simp
    from 2(4) have s: "successively (\<lambda>a b. \<not> (is_space a \<and> is_space b)) cs"
      by (auto simp: successively_Cons)
    from 2(2)[OF False a s] False show ?thesis by simp
  qed
qed

lemma strip_prefix:
  "dropWhile is_space s = strip s @ rev (takeWhile is_space (rev (dropWhile is_space s)))"
proof -
  let ?t = "dropWhile is_space s"
  have "rev (takeWhile is_space (rev ?t) @ dropWhile is_space (rev ?t)) = ?t"
    by (simp only: takeWhile_dropWhile_id rev_rev_ident)
  then have "rev (dropWhile is_space (rev ?t)) @ rev (takeWhile is_space (rev ?t)) = ?t"
    by (simp only: rev_append)
  then show ?thesis
    by (simp only: strip_def)
qed

lemma strip_decompose: "\<exists>pre suf. s = pre @ strip s @ suf"
proof -
  have "s = takeWhile is_space s @ dropWhile is_space s" by simp
  with strip_prefix[of s]
  have "s = takeWhile is_space s @ strip s @
              rev (takeWhile is_space (rev (dropWhile is_space s)))"
    by simp
  then show ?thesis by blast
qed

lemma strip_ends: "strip s = [] \<or> (\<not> is_space (hd (strip s)) \<and> \<not> is_space (last (strip s)))"
proof (cases "strip s = []")
  case True
  then show ?thesis by simp
next
  case False
  let ?t = "dropWhile is_space s"
  let ?u = "dropWhile is_space (rev ?t)"
  from False have u: "?u \<noteq> []" by (simp add: strip_def)
  have t: "?t \<noteq> []"
  proof
    assume "?t = []"
    then have "?u = []" by (simp only: rev.simps dropWhile.simps)
    with u show False by blast
  qed
  have l: "\<not> is_space (hd ?u)" using u by (rule hd_dropWhile)
  have "last (strip s) = hd ?u" using u by (simp add: strip_def last_rev)
  with l have last: "\<not> is_space (last (strip s))" by simp
  have "\<not> is_space (hd ?t)" using t by (rule hd_dropWhile)
  moreover have "hd ?t = hd (strip s)"
    using False strip_prefix[of s] by (metis hd_append2)
  ultimately have "\<not> is_space (hd (strip s))" by simp
  with last show ?thesis by simp
qed

lemma strip_id:
  assumes "s = [] \<or> (\<not> is_space (hd s) \<and> \<not> is_space (last s))"
  shows "strip s = s"
proof (cases "s = []")
  case True
  then show ?thesis by (simp add: strip_def)
next
  case False
  with assms have h: "\<not> is_space (hd s)" and l: "\<not> is_space (last s)" by auto
  from h have 1: "dropWhile is_space s = s" by (simp add: dropWhile_eq_self_iff)
  from False l have "\<not> is_space (hd (rev s))" by (simp add: hd_rev)
  then have 2: "dropWhile is_space (rev s) = rev s" by (simp add: dropWhile_eq_self_iff)
  show ?thesis by (simp only: strip_def 1 2 rev_rev_ident)
qed

lemma tidy_normalize_name: "tidy (normalize_name s)"
proof -
  let ?c = "collapse_spaces (replace_dots s)"
  obtain pre suf where d: "?c = pre @ strip ?c @ suf"
    using strip_decompose by blast
  then have sub: "set (strip ?c) \<subseteq> set ?c"
    by (metis Un_iff set_append subsetI)
  have "CHR ''.'' \<notin> set ?c"
    using set_collapse_spaces[of "replace_dots s"] replace_dots_no_dot[of s] by auto
  with sub have 1: "CHR ''.'' \<notin> set (strip ?c)" by auto
  have 2: "list_all (\<lambda>c. is_space c \<longrightarrow> c = CHR '' '') (strip ?c)"
    unfolding list_all_iff using sub collapse_spaces_blank by blast
  have "successively (\<lambda>a b. \<not> (is_space a \<and> is_space b)) (pre @ strip ?c @ suf)"
    using collapse_spaces_successively[of "replace_dots s"] d by simp
  then have 3: "successively (\<lambda>a b. \<not> (is_space a \<and> is_space b)) (strip ?c)"
    by (simp add: successively_append_iff)
  from 1 2 3 strip_ends[of ?c] show ?thesis
    by (simp add: tidy_def normalize_name_def)
qed

lemma tidy_fixed: "tidy s \<Longrightarrow> normalize_name s = s"
  by (simp add: tidy_def normalize_name_def replace_dots_id collapse_spaces_id strip_id)

lemma normalize_name_idem: "normalize_name (normalize_name s) = normalize_name s"
  by (rule tidy_fixed) (rule tidy_normalize_name)

lemma normalize_sub_category: "normalize_name ''Sub-Category'' = ''Sub-Category''"
  by code_simp

lemma rename_normalize_fixed:
  "rename_column (normalize_name (rename_column (normalize_name s))) = rename_column (normalize_name s)"
proof (cases "normalize_name s = ''Sub Category''")
  case True
  then show ?thesis by (simp add: rename_column_def normalize_sub_category)
next
  case False
  then show ?thesis by (simp add: rename_column_def normalize_name_idem)
qed

text \<open>
  Claim C9. Column-name normalization (dots to spaces, runs of whitespace to one space,
  trimming, then the renaming of "Sub Category" to "Sub-Category") is idempotent:
  normalizing a header that normalization has produced gives the same header.
\<close>

theorem normalize_columns_idempotent:
  "normalize_columns (normalize_columns cols) = normalize_columns cols"
  by (simp add: normalize_columns_def rename_normalize_fixed)

theorem normalize_columns_idempotent_witness:
  "normalize_columns [''Order.Date'', ''  Sub..Category '', ''Customer   Name''] =
     [''Order Date'', ''Sub-Category'', ''Customer Name''] \<and>
   normalize_columns [''Order Date'', ''Sub-Category'', ''Customer Name''] =
     [''Order Date'', ''Sub-Category'', ''Customer Name'']"
proof -
  have a: "normalize_columns [''Order.Date'', ''  Sub..Category '', ''Customer   Name''] =
     [''Order Date'', ''Sub-Category'', ''Customer Name'']"
    by code_simp
  from normalize_columns_idempotent[of "[''Order.Date'', ''  Sub..Category '', ''Customer   Name'']"]
  show ?thesis unfolding a by simp
qed

section \<open>The loader\<close>

subsection \<open>Reading cells\<close>

lemma get_loc_less: "c \<in> set cols \<Longrightarrow> get_loc cols c < length cols"
  unfolding get_loc_def by (induction cols) auto

lemma get_loc_nth: "c \<in> set cols \<Longrightarrow> cols ! get_loc cols c = c"
  unfolding get_loc_def by (induction cols) auto

lemma get_loc_distinct:
  assumes "a \<in> set cols" and "b \<in> set cols" and "a \<noteq> b"
  shows "get_loc cols a \<noteq> get_loc cols b"
  using assms get_loc_nth by metis

lemma cell_at_rows [simp]: "cell_at (df\<lparr>rows := rs\<rparr>) c r = cell_at df c r"
  by (simp add: cell_at_def)

lemma cell_at_update_same:
  "cell_at df c (r[get_loc (columns df) c := v]) =
     (if get_loc (columns df) c < length r then v else Null)"
  by (simp add: cell_at_def Let_def)

lemma cell_at_update_other:
  "get_loc (columns df) c \<noteq> get_loc (columns df) c' \<Longrightarrow>
   cell_at df c (r[get_loc (columns df) c' := v]) = cell_at df c r"
  by (simp add: cell_at_def Let_def)

lemma columns_dropna [simp]: "columns (dropna cs df) = columns df"
  by (simp add: dropna_def)

lemma columns_set_column [simp]: "columns (set_column c vals df) = columns df"
  by (simp add: set_column_def)

lemma columns_clean [simp]: "columns (clean parse df) = columns df"
  by (simp add: clean_def Let_def)

lemma clean_unfold:
  "clean parse df =
     dropna [''Order Date'']
       (set_column ''Order Date''
          (to_datetime parse (column (dropna [''Sales'', ''Profit''] df) ''Order Date''))
          (dropna [''Sales'', ''Profit''] df))"
  by (simp add: clean_def Let_def)

lemma rows_dropna:
  "set (rows (dropna cs df)) = {r \<in> set (rows df). \<forall>c \<in> set cs. cell_at df c r \<noteq> Null}"
  by (auto simp: dropna_def list_all_iff)

lemma to_datetime_cell:
  "x \<in> set (to_datetime parse col) \<Longrightarrow> x = Null \<or> (\<exists>t. x = Date t)"
  by (auto simp: to_datetime_def split: option.splits if_splits)

lemma rows_set_column:
  assumes "r' \<in> set (rows (set_column c vals df))"
  shows "\<exists>r v. r \<in> set (rows df) \<and> v \<in> set vals \<and> r' = r[get_loc (columns df) c := v]"
proof -
  from assms obtain r v where "(r, v) \<in> set (zip (rows df) vals)"
    and "r' = r[get_loc (columns df) c := v]"
    by (auto simp: set_column_def)
  moreover from this have "r \<in> set (rows df)" "v \<in> set vals"
    by (auto dest: set_zip_leftD set_zip_rightD)
  ultimately show ?thesis by blast
qed

subsection \<open>Cleaning\<close>

lemma clean_no_nulls:
  assumes req: "''Sales'' \<in> set (columns df)" "''Profit'' \<in> set (columns df)"
    "''Order Date'' \<in> set (columns df)"
    and r': "r' \<in> set (rows (clean parse df))"
  shows "cell_at df ''Sales'' r' \<noteq> Null \<and> cell_at df ''Profit'' r' \<noteq> Null \<and>
         (\<exists>t. cell_at df ''Order Date'' r' = Date t)"
proof -
  let ?d1 = "dropna [''Sales'', ''Profit''] df"
  let ?vals = "to_datetime parse (column ?d1 ''Order Date'')"
  let ?d2 = "set_column ''Order Date'' ?vals ?d1"
  let ?i = "get_loc (columns df) ''Order Date''"
  from r' have "r' \<in> set (rows (dropna [''Order Date''] ?d2))"
    by (simp only: clean_unfold)
  then have in2: "r' \<in> set (rows ?d2)" and nn: "cell_at df ''Order Date'' r' \<noteq> Null"
    by (simp_all add: rows_dropna cell_at_def)
  from rows_set_column[OF in2] obtain r v where
    r: "r \<in> set (rows ?d1)" and v: "v \<in> set ?vals" and eq: "r' = r[?i := v]"
    by auto
  from r have sp: "cell_at df ''Sales'' r \<noteq> Null" "cell_at df ''Profit'' r \<noteq> Null"
    by (simp_all add: rows_dropna cell_at_def)
  have ne: "get_loc (columns df) ''Sales'' \<noteq> ?i" "get_loc (columns df) ''Profit'' \<noteq> ?i"
    using req by (simp_all add: get_loc_distinct)
  from sp ne eq have 1: "cell_at df ''Sales'' r' \<noteq> Null" "cell_at df ''Profit'' r' \<noteq> Null"
    by (simp_all add: cell_at_update_other)
  from nn eq have "cell_at df ''Order Date'' r' = v"
    by (simp add: cell_at_update_same split: if_splits)
  with nn to_datetime_cell[OF v] have "\<exists>t. cell_at df ''Order Date'' r' = Date t"
    by auto
  with 1 show ?thesis by simp
qed

lemma load_frame_cases:
  "load_frame parse df0 =
     (if set required \<subseteq> set (normalize_columns (columns df0))
      then Inr (clean parse (df0\<lparr>columns := normalize_columns (columns df0)\<rparr>))
      else Inl (KeyError (filter (\<lambda>c. c \<notin> set (normalize_columns (columns df0))) required)
                  (normalize_columns (columns df0))))"
  by (auto simp: load_frame_def Let_def filter_empty_conv)

lemma load_data_Some:
  "find (path_exists e) (candidates (app_dir e)) = Some p \<Longrightarrow>
   load_data e = load_frame (parse_date e) (read_csv e p)"
  by (simp add: load_data_def)

lemma load_data_None:
  "find (path_exists e) (candidates (app_dir e)) = None \<Longrightarrow>
   load_data e = Inl (FileNotFoundError not_found_message)"
  by (simp add: load_data_def)

lemma load_data_Inr:
  assumes "load_data e = Inr df"
  shows "\<exists>p. find (path_exists e) (candidates (app_dir e)) = Some p \<and>
             set required \<subseteq> set (normalize_columns (columns (read_csv e p))) \<and>
             df = clean (parse_date e)
                    ((read_csv e p)\<lparr>columns := normalize_columns (columns (read_csv e p))\<rparr>)"
proof (cases "find (path_exists e) (candidates (app_dir e))")
  case None
  with assms show ?thesis by (simp add: load_data_None)
next
  case (Some p)
  with assms show ?thesis
    by (simp add: load_data_Some load_frame_cases split: if_splits)
qed

lemma loaded_columns:
  assumes "load_data e = Inr df"
  shows "set required \<subseteq> set (columns df)"
  using load_data_Inr[OF assms] by auto

subsection \<open>Sample run\<close>

lemma sample_load: "load_data sample_env = Inr sample_df"
  by code_simp

subsection \<open>Claims about the loader\<close>

text \<open>
  Claim C1. Whenever the loader returns a dataset (it raised neither of its two errors),
  no record of the dataset has a null Sales, Profit or Order Date, and the dataset is
  the normalized file cleaned in this order: drop the records with a null Sales or
  Profit, parse Order Date with unparseable values becoming null, drop the records with
  a null Order Date.
\<close>

theorem load_data_no_nulls:
  assumes "load_data e = Inr df"
  shows "(\<forall>r \<in> set (rows df).
            cell_at df ''Sales'' r \<noteq> Null \<and> cell_at df ''Profit'' r \<noteq> Null \<and>
            cell_at df ''Order Date'' r \<noteq> Null) \<and>
         (\<exists>p df0 df1 df2.
            find (path_exists e) (candidates (app_dir e)) = Some p \<and>
            df0 = (read_csv e p)\<lparr>columns := normalize_columns (columns (read_csv e p))\<rparr> \<and>
            df1 = dropna [''Sales'', ''Profit''] df0 \<and>
            df2 = set_column ''Order Date''
                    (to_datetime (parse_date e) (column df1 ''Order Date'')) df1 \<and>
            df = dropna [''Order Date''] df2)"
proof -
  from load_data_Inr[OF assms] obtain p where
    p: "find (path_exists e) (candidates (app_dir e)) = Some p" and
    req: "set required \<subseteq> set (normalize_columns (columns (read_csv e p)))" and
    df: "df = clean (parse_date e)
                ((read_csv e p)\<lparr>columns := normalize_columns (columns (read_csv e p))\<rparr>)"
    by blast
  let ?df0 = "(read_csv e p)\<lparr>columns := normalize_columns (columns (read_csv e p))\<rparr>"
  from req have cols: "''Sales'' \<in> set (columns ?df0)" "''Profit'' \<in> set (columns ?df0)"
    "''Order Date'' \<in> set (columns ?df0)"
    by (auto simp: required_def)
  have "\<forall>r \<in> set (rows df).
          cell_at df ''Sales'' r \<noteq> Null \<and> cell_at df ''Profit'' r \<noteq> Null \<and>
          cell_at df ''Order Date'' r \<noteq> Null"
  proof
    fix r assume "r \<in> set (rows df)"
    then have "r \<in> set (rows (clean (parse_date e) ?df0))" by (simp add: df)
    from clean_no_nulls[OF cols this]
    show "cell_at df ''Sales'' r \<noteq> Null \<and> cell_at df ''Profit'' r \<noteq> Null \<and>
          cell_at df ''Order Date'' r \<noteq> Null"
      by (auto simp: df cell_at_def)
  qed
  moreover from p df have "\<exists>p df0 df1 df2.
            find (path_exists e) (candidates (app_dir e)) = Some p \<and>
            df0 = (read_csv e p)\<lparr>columns := normalize_columns (columns (read_csv e p))\<rparr> \<and>
            df1 = dropna [''Sales'', ''Profit''] df0 \<and>
            df2 = set_column ''Order Date''
                    (to_datetime (parse_date e) (column df1 ''Order Date'')) df1 \<and>
            df = dropna [''Order Date''] df2"
    by (simp only: clean_unfold) blast
  ultimately show ?thesis by (rule conjI)
qed

theorem load_data_no_nulls_witness:
  "load_data sample_env = Inr sample_df \<and>
   cell_at sample_df ''Sales'' (rows sample_df ! 3) \<noteq> Null \<and>
   cell_at sample_df ''Profit'' (rows sample_df ! 3) \<noteq> Null \<and>
   cell_at sample_df ''Order Date'' (rows sample_df ! 3) \<noteq> Null \<and>
   length (rows sample_csv) = 6 \<and> length (rows sample_df) = 4"
proof -
  have "rows sample_df ! 3 \<in> set (rows sample_df)"
    by (simp add: sample_df_def)
  with load_data_no_nulls[OF sample_load] have
    "cell_at sample_df ''Sales'' (rows sample_df ! 3) \<noteq> Null \<and>
     cell_at sample_df ''Profit'' (rows sample_df ! 3) \<noteq> Null \<and>
     cell_at sample_df ''Order Date'' (rows sample_df ! 3) \<noteq> Null"
    by blast
  moreover have "length (rows sample_csv) = 6 \<and> length (rows sample_df) = 4"
    by (simp add: sample_csv_def sample_df_def)
  ultimately show ?thesis using sample_load by simp
qed



text \<open>
  Claim C4. The loader probes exactly four locations in this order: the file beside the
  script, the file in the script's \<^verbatim>\<open>data\<close> folder, the file in the working directory,
  the file in the working directory's \<^verbatim>\<open>data\<close> folder. It reads the first one that
  exists and nothing else. It fails with the not-found error exactly when none of the
  four exists, and the message of that error names \<^verbatim>\<open>superstore.csv\<close> and says to place
  it in the same folder as the app or inside a \<^verbatim>\<open>data/\<close> folder.
\<close>

theorem load_data_candidates:
  "candidates (app_dir e) =
     [app_dir e @ [''superstore.csv''], app_dir e @ [''data'', ''superstore.csv''],
      [''superstore.csv''], [''data'', ''superstore.csv'']] \<and>
   (\<forall>i < length (candidates (app_dir e)).
      path_exists e (candidates (app_dir e) ! i) \<and>
      (\<forall>j < i. \<not> path_exists e (candidates (app_dir e) ! j)) \<longrightarrow>
      load_data e = load_frame (parse_date e) (read_csv e (candidates (app_dir e) ! i))) \<and>
   ((\<exists>m. load_data e = Inl (FileNotFoundError m)) \<longleftrightarrow>
      (\<forall>p \<in> set (candidates (app_dir e)). \<not> path_exists e p)) \<and>
   (\<forall>m. load_data e = Inl (FileNotFoundError m) \<longrightarrow> m = not_found_message) \<and>
   sublist ''superstore.csv'' not_found_message \<and>
   sublist ''in the same folder as this app'' not_found_message \<and>
   sublist ''or inside a 'data/' folder'' not_found_message"
proof -
  let ?cs = "candidates (app_dir e)"
  have 1: "\<forall>i < length ?cs.
      path_exists e (?cs ! i) \<and> (\<forall>j < i. \<not> path_exists e (?cs ! j)) \<longrightarrow>
      load_data e = load_frame (parse_date e) (read_csv e (?cs ! i))"
  proof (intro allI impI)
    fix i assume i: "i < length ?cs"
      and h: "path_exists e (?cs ! i) \<and> (\<forall>j < i. \<not> path_exists e (?cs ! j))"
    then have "find (path_exists e) ?cs = Some (?cs ! i)"
      unfolding find_Some_iff by blast
    then show "load_data e = load_frame (parse_date e) (read_csv e (?cs ! i))"
      by (rule load_data_Some)
  qed
  have nf: "\<And>p m. load_frame (parse_date e) (read_csv e p) \<noteq> Inl (FileNotFoundError m)"
    by (simp add: load_frame_cases)
  have 2: "(\<exists>m. load_data e = Inl (FileNotFoundError m)) \<longleftrightarrow>
      (\<forall>p \<in> set ?cs. \<not> path_exists e p)"
  proof (cases "find (path_exists e) ?cs")
    case None
    then show ?thesis by (auto simp: load_data_None find_None_iff)
  next
    case (Some p)
    then have "\<exists>p \<in> set ?cs. path_exists e p"
      unfolding find_Some_iff by (metis nth_mem)
    with Some nf show ?thesis by (auto simp: load_data_Some)
  qed
  have 3: "\<forall>m. load_data e = Inl (FileNotFoundError m) \<longrightarrow> m = not_found_message"
  proof (cases "find (path_exists e) ?cs")
    case None
    then show ?thesis by (simp add: load_data_None)
  next
    case (Some p)
    with nf show ?thesis by (simp add: load_data_Some)
  qed
  have 4: "sublist ''superstore.csv'' not_found_message"
    by code_simp
  have 5: "sublist ''in the same folder as this app'' not_found_message"
    by code_simp
  have 6: "sublist ''or inside a 'data/' folder'' not_found_message"
    by code_simp
  have 0: "?cs =
     [app_dir e @ [''superstore.csv''], app_dir e @ [''data'', ''superstore.csv''],
      [''superstore.csv''], [''data'', ''superstore.csv'']]"
    by (simp add: candidates_def)
  show ?thesis by (intro conjI) (rule 0 1 2 3 4 5 6)+
qed

theorem load_data_candidates_witness:
  "load_data sample_env = load_frame sample_parse sample_csv \<and>
   load_data (sample_env\<lparr>path_exists := (\<lambda>p. False)\<rparr>) =
     Inl (FileNotFoundError not_found_message)"
proof -
  let ?e0 = "sample_env\<lparr>path_exists := (\<lambda>p. False)\<rparr>"
  have a: "\<forall>p \<in> set (candidates (app_dir ?e0)). \<not> path_exists ?e0 p"
    by simp
  from load_data_candidates[of ?e0] a
  have b: "load_data ?e0 = Inl (FileNotFoundError not_found_message)"
    by blast
  have c: "(3::nat) < length (candidates (app_dir sample_env)) \<and>
      path_exists sample_env (candidates (app_dir sample_env) ! 3) \<and>
      (\<forall>j < 3. \<not> path_exists sample_env (candidates (app_dir sample_env) ! j))"
    by (simp add: sample_env_def candidates_def less_Suc_eq numeral_3_eq_3)
  from load_data_candidates[of sample_env] c
  have "load_data sample_env =
          load_frame (parse_date sample_env)
            (read_csv sample_env (candidates (app_dir sample_env) ! 3))"
    by blast
  then have "load_data sample_env = load_frame sample_parse sample_csv"
    by (simp add: sample_env_def)
  with b show ?thesis by simp
qed

section \<open>The filter stage\<close>

lemma text_key_Some [simp]: "text_key x = Some s \<longleftrightarrow> x = Text s"
  by (cases x) (auto simp: text_key_def)

lemma isin_iff: "isin x vals \<longleftrightarrow> (\<exists>v \<in> set vals. x = Text v)"
  by (cases x) (auto simp: isin_def text_key_def)

lemma cell_at_columns: "columns a = columns b \<Longrightarrow> cell_at a c r = cell_at b c r"
  by (simp add: cell_at_def)

lemma columns_select_isin [simp]: "columns (select_isin c vals df) = columns df"
  by (simp add: select_isin_def)

lemma rows_select_isin:
  "rows (select_isin c vals df) = filter (\<lambda>r. isin (cell_at df c r) vals) (rows df)"
  by (simp add: select_isin_def)

lemma dataframe_eqI: "columns a = columns b \<Longrightarrow> rows a = rows b \<Longrightarrow> (a :: dataframe) = b"
  by simp

lemma filtered_df_columns [simp]: "columns (filtered_df df r c s) = columns df"
  by (simp add: filtered_df_def Let_def)

lemma filtered_df_rows:
  "rows (filtered_df df r c s) =
     filter (\<lambda>row. (r = [] \<or> isin (cell_at df ''Region'' row) r) \<and>
                   (c = [] \<or> isin (cell_at df ''Category'' row) c) \<and>
                   (s = [] \<or> isin (cell_at df ''Sub-Category'' row) s)) (rows df)"
proof -
  let ?f1 = "if r \<noteq> [] then select_isin ''Region'' r df else df"
  let ?f2 = "if c \<noteq> [] then select_isin ''Category'' c ?f1 else ?f1"
  let ?f3 = "if s \<noteq> [] then select_isin ''Sub-Category'' s ?f2 else ?f2"
  have c1: "columns ?f1 = columns df" by simp
  have c2: "columns ?f2 = columns df" by simp
  have r1: "rows ?f1 = filter (\<lambda>row. r = [] \<or> isin (cell_at df ''Region'' row) r) (rows df)"
    by (simp add: rows_select_isin)
  have r2: "rows ?f2 =
      filter (\<lambda>row. c = [] \<or> isin (cell_at df ''Category'' row) c) (rows ?f1)"
    using cell_at_columns[OF c1] by (simp add: rows_select_isin)
  have r3: "rows ?f3 =
      filter (\<lambda>row. s = [] \<or> isin (cell_at df ''Sub-Category'' row) s) (rows ?f2)"
    using cell_at_columns[OF c2] by (simp add: rows_select_isin)
  have "filtered_df df r c s = ?f3"
    by (simp add: filtered_df_def Let_def)
  then have "rows (filtered_df df r c s) = rows ?f3" by simp
  also have "\<dots> = filter (\<lambda>row. s = [] \<or> isin (cell_at df ''Sub-Category'' row) s)
      (filter (\<lambda>row. c = [] \<or> isin (cell_at df ''Category'' row) c)
         (filter (\<lambda>row. r = [] \<or> isin (cell_at df ''Region'' row) r) (rows df)))"
    by (simp only: r3 r2 r1)
  also have "\<dots> = filter (\<lambda>row. (r = [] \<or> isin (cell_at df ''Region'' row) r) \<and>
                   (c = [] \<or> isin (cell_at df ''Category'' row) c) \<and>
                   (s = [] \<or> isin (cell_at df ''Sub-Category'' row) s)) (rows df)"
    by (simp add: conj_commute conj_left_commute cong: conj_cong)
  finally show ?thesis .
qed

lemma column_mem: "x \<in> set (column df c) \<longleftrightarrow> (\<exists>row \<in> set (rows df). cell_at df c row = x)"
  by (auto simp: column_def)

lemma set_text_keys: "set (List.map_filter text_key xs) = {v. Text v \<in> set xs}"
  by (induction xs) (auto simp: text_key_def split: cell.splits)

lemma set_options: "set (options df c) = {v. Text v \<in> set (column df c)}"
  by (simp add: options_def set_text_keys)

lemma isin_options:
  assumes "row \<in> set (rows df)" and "set vals = set (options df c)"
  shows "isin (cell_at df c row) vals \<longleftrightarrow> text_key (cell_at df c row) \<noteq> None"
proof -
  have "(\<exists>v \<in> set vals. cell_at df c row = Text v) \<longleftrightarrow> (\<exists>v. cell_at df c row = Text v)"
    using assms by (auto simp: set_options column_mem)
  then show ?thesis by (auto simp: isin_iff)
qed

lemma options_empty:
  assumes "set vals = set (options df c)"
  shows "vals = [] \<longleftrightarrow> (\<forall>row \<in> set (rows df). text_key (cell_at df c row) = None)"
proof -
  have "vals = [] \<longleftrightarrow> set (options df c) = {}"
    using assms by auto
  also have "\<dots> \<longleftrightarrow> (\<forall>row \<in> set (rows df). \<forall>v. cell_at df c row \<noteq> Text v)"
    by (auto simp: set_options column_mem)
  also have "\<dots> \<longleftrightarrow> (\<forall>row \<in> set (rows df). text_key (cell_at df c row) = None)"
    by (metis not_None_eq text_key_Some)
  finally show ?thesis .
qed

lemma keeps_all_iff:
  assumes "set vals = set (options df c)"
  shows "(\<forall>row \<in> set (rows df). vals = [] \<or> isin (cell_at df c row) vals) \<longleftrightarrow>
         (\<forall>row \<in> set (rows df). text_key (cell_at df c row) = None) \<or>
         (\<forall>row \<in> set (rows df). text_key (cell_at df c row) \<noteq> None)"
  using isin_options[OF _ assms] options_empty[OF assms] by blast

text \<open>
  Claim C2. For every dataset and every selection the filter keeps exactly the records
  that pass, for each of Region, Category and Sub-Category, the test of that dimension:
  no constraint when the dimension's selection is empty, membership of the record's
  value in the selection otherwise. The three tests are combined with "and". Filtering
  is a total function (it cannot fail); when the non-empty selection of some dimension
  has none of its values in that column of the dataset, no record is left.
\<close>

theorem filtered_df_keeps:
  "filtered_df df region_filter category_filter sub_category_filter =
     df\<lparr>rows :=
       filter (\<lambda>row.
         (region_filter = [] \<or>
            (\<exists>v \<in> set region_filter. cell_at df ''Region'' row = Text v)) \<and>
         (category_filter = [] \<or>
            (\<exists>v \<in> set category_filter. cell_at df ''Category'' row = Text v)) \<and>
         (sub_category_filter = [] \<or>
            (\<exists>v \<in> set sub_category_filter. cell_at df ''Sub-Category'' row = Text v)))
       (rows df)\<rparr> \<and>
   ((region_filter \<noteq> [] \<and>
       (\<forall>v \<in> set region_filter. Text v \<notin> set (column df ''Region'')) \<or>
     category_filter \<noteq> [] \<and>
       (\<forall>v \<in> set category_filter. Text v \<notin> set (column df ''Category'')) \<or>
     sub_category_filter \<noteq> [] \<and>
       (\<forall>v \<in> set sub_category_filter. Text v \<notin> set (column df ''Sub-Category''))) \<longrightarrow>
      rows (filtered_df df region_filter category_filter sub_category_filter) = [])"
proof -
  let ?f = "filtered_df df region_filter category_filter sub_category_filter"
  have 1: "?f = df\<lparr>rows :=
       filter (\<lambda>row.
         (region_filter = [] \<or>
            (\<exists>v \<in> set region_filter. cell_at df ''Region'' row = Text v)) \<and>
         (category_filter = [] \<or>
            (\<exists>v \<in> set category_filter. cell_at df ''Category'' row = Text v)) \<and>
         (sub_category_filter = [] \<or>
            (\<exists>v \<in> set sub_category_filter. cell_at df ''Sub-Category'' row = Text v)))
       (rows df)\<rparr>"
    by (rule dataframe_eqI) (simp_all add: filtered_df_rows isin_iff)
  have 2: "(region_filter \<noteq> [] \<and>
       (\<forall>v \<in> set region_filter. Text v \<notin> set (column df ''Region'')) \<or>
     category_filter \<noteq> [] \<and>
       (\<forall>v \<in> set category_filter. Text v \<notin> set (column df ''Category'')) \<or>
     sub_category_filter \<noteq> [] \<and>
       (\<forall>v \<in> set sub_category_filter. Text v \<notin> set (column df ''Sub-Category''))) \<longrightarrow>
      rows ?f = []"
    by (auto simp: filtered_df_rows isin_iff column_mem filter_empty_conv)
  from 1 2 show ?thesis by (rule conjI)
qed

theorem filtered_df_keeps_witness:
  "rows (filtered_df sample_df [''East''] [] []) =
     [rows sample_df ! 0, rows sample_df ! 2] \<and>
   rows (filtered_df sample_df [''Nonexistent''] [] []) = []"
proof -
  have a: "rows (filtered_df sample_df [''East''] [] []) =
      [rows sample_df ! 0, rows sample_df ! 2]"
    using filtered_df_keeps[of sample_df "[''East'']" "[]" "[]"]
    by (simp add: sample_df_def cell_at_def get_loc_def)
  have "[''Nonexistent''] \<noteq> [] \<and>
    (\<forall>v \<in> set [''Nonexistent'']. Text v \<notin> set (column sample_df ''Region''))"
    by (simp add: sample_df_def column_def cell_at_def get_loc_def)
  with filtered_df_keeps[of sample_df "[''Nonexistent'']" "[]" "[]"]
  have b: "rows (filtered_df sample_df [''Nonexistent''] [] []) = []"
    by blast
  from a b show ?thesis by (rule conjI)
qed




section \<open>The aggregates\<close>

lemma date_key_Some [simp]: "date_key x = Some t \<longleftrightarrow> x = Date t"
  by (cases x) (auto simp: date_key_def)

lemma set_map_filter_keys:
  "set (List.map_filter key xs) = {k. \<exists>x \<in> set xs. key x = Some k}"
  by (induction xs) (auto split: option.splits)

lemma group_keys_set:
  "set (group_keys key f c) = {k. \<exists>r \<in> set (rows f). key (cell_at f c r) = Some k}"
  by (auto simp: group_keys_def set_map_filter_keys column_def)

lemma group_keys_distinct: "distinct (group_keys key f c)"
  by (simp add: group_keys_def)

lemma group_keys_sorted: "sorted (group_keys key f c)"
  by (simp add: group_keys_def)

lemma col_sum_group_of:
  "col_sum (group_of key f c k) v =
     sum_list (map (\<lambda>r. num_of (cell_at f v r))
       (filter (\<lambda>r. key (cell_at f c r) = Some k) (rows f)))"
  by (simp add: col_sum_def column_def group_of_def cell_at_def comp_def)

lemma col_sum_rows:
  "col_sum f v = sum_list (map (\<lambda>r. num_of (cell_at f v r)) (rows f))"
  by (simp add: col_sum_def column_def comp_def)

lemma map_fst_groupby_sum: "map fst (groupby_sum key f c v) = group_keys key f c"
  by (simp add: groupby_sum_def comp_def)

lemma set_groupby_sum:
  "set (groupby_sum key f c v) =
     (\<lambda>k. (k, col_sum (group_of key f c k) v)) ` set (group_keys key f c)"
  by (simp add: groupby_sum_def)

lemma sum_list_sort_key:
  fixes h :: "'a \<Rightarrow> rat"
  shows "sum_list (map h (sort_key k xs)) = sum_list (map h xs)"
proof -
  have "mset (map h (sort_key k xs)) = mset (map h xs)" by simp
  then have "sum_mset (mset (map h (sort_key k xs))) = sum_mset (mset (map h xs))"
    by (rule arg_cong)
  then show ?thesis by (simp only: sum_mset_sum_list)
qed

lemma sum_list_delta:
  fixes a :: rat
  assumes "distinct ks"
  shows "sum_list (map (\<lambda>k. if k = k0 then a else 0) ks) = (if k0 \<in> set ks then a else 0)"
  using assms by (induction ks) auto

lemma sum_by_groups:
  fixes h :: "'r \<Rightarrow> rat"
  assumes "distinct ks" and "\<forall>x \<in> set xs. \<forall>k. g x = Some k \<longrightarrow> k \<in> set ks"
  shows "sum_list (map (\<lambda>k. sum_list (map h (filter (\<lambda>x. g x = Some k) xs))) ks) =
         sum_list (map h (filter (\<lambda>x. g x \<noteq> None) xs))"
  using assms(2)
proof (induction xs)
  case Nil
  show ?case by simp
next
  case (Cons x xs)
  then have ih: "sum_list (map (\<lambda>k. sum_list (map h (filter (\<lambda>x. g x = Some k) xs))) ks) =
         sum_list (map h (filter (\<lambda>x. g x \<noteq> None) xs))"
    by simp
  show ?case
  proof (cases "g x")
    case None
    then show ?thesis using ih by simp
  next
    case (Some k0)
    with Cons.prems have mem: "k0 \<in> set ks" by simp
    have "sum_list (map (\<lambda>k. sum_list (map h (filter (\<lambda>x. g x = Some k) (x # xs)))) ks) =
          sum_list (map (\<lambda>k. (if k = k0 then h x else 0) +
                              sum_list (map h (filter (\<lambda>x. g x = Some k) xs))) ks)"
      using Some by (intro arg_cong[where f = sum_list] map_cong) auto
    also have "\<dots> = sum_list (map (\<lambda>k. if k = k0 then h x else 0) ks) +
          sum_list (map (\<lambda>k. sum_list (map h (filter (\<lambda>x. g x = Some k) xs))) ks)"
      by (simp add: sum_list_addf)
    also have "\<dots> = h x + sum_list (map h (filter (\<lambda>x. g x \<noteq> None) xs))"
      using mem ih by (simp add: sum_list_delta[OF assms(1)])
    finally show ?thesis using Some by simp
  qed
qed

lemma case_prod_fst: "(\<lambda>(k, sales). k) = fst"
  by (simp add: fun_eq_iff)

lemma sales_time_eq: "sales_time f = groupby_sum date_key f ''Order Date'' ''Sales''"
proof -
  have "sorted (map fst (groupby_sum date_key f ''Order Date'' ''Sales''))"
    by (simp only: map_fst_groupby_sum group_keys_sorted)
  then show ?thesis
    by (simp add: sales_time_def case_prod_fst sort_key_id_if_sorted)
qed

text \<open>
  Claim C10. In the Sales Over Time output every Order Date of the filtered view
  appears exactly once, with the sum of the Sales of that date, and the dates of the
  output are strictly increasing.
\<close>

theorem sales_time_strictly_increasing:
  "sorted_wrt (<) (map fst (sales_time f)) \<and>
   distinct (map fst (sales_time f)) \<and>
   set (map fst (sales_time f)) = {t. Date t \<in> set (column f ''Order Date'')} \<and>
   map snd (sales_time f) =
     map (\<lambda>t. sum_list (map (\<lambda>r. num_of (cell_at f ''Sales'' r))
                 (filter (\<lambda>r. cell_at f ''Order Date'' r = Date t) (rows f))))
       (map fst (sales_time f))"
proof -
  have k: "map fst (sales_time f) = group_keys date_key f ''Order Date''"
    by (simp only: sales_time_eq map_fst_groupby_sum)
  have 1: "sorted_wrt (<) (map fst (sales_time f))"
    unfolding k strict_sorted_iff by (simp add: group_keys_sorted group_keys_distinct)
  have 2: "distinct (map fst (sales_time f))"
    unfolding k by (rule group_keys_distinct)
  have 3: "set (map fst (sales_time f)) = {t. Date t \<in> set (column f ''Order Date'')}"
    unfolding k by (auto simp: group_keys_set column_mem)
  have 4: "map snd (sales_time f) =
     map (\<lambda>t. sum_list (map (\<lambda>r. num_of (cell_at f ''Sales'' r))
                 (filter (\<lambda>r. cell_at f ''Order Date'' r = Date t) (rows f))))
       (map fst (sales_time f))"
    unfolding k by (simp add: sales_time_eq groupby_sum_def col_sum_group_of comp_def)
  show ?thesis by (intro conjI) (rule 1 2 3 4)+
qed

theorem sales_time_strictly_increasing_witness:
  "sales_time sample_df = [(18628, 150), (18629, 200), (18630, 7)] \<and>
   sorted_wrt (<) (map fst (sales_time sample_df))"
proof -
  have "sales_time sample_df = [(18628, 150), (18629, 200), (18630, 7)]"
    by code_simp
  with sales_time_strictly_increasing[of sample_df] show ?thesis by blast
qed

subsection \<open>Category summary\<close>

lemma category_summary_sales:
  "sum_list (map (fst \<circ> snd) (category_summary f)) =
     sum_list (map (\<lambda>r. num_of (cell_at f ''Sales'' r))
       (filter (\<lambda>r. text_key (cell_at f ''Category'' r) \<noteq> None) (rows f)))"
proof -
  let ?ks = "group_keys text_key f ''Category''"
  have "sum_list (map (fst \<circ> snd) (category_summary f)) =
        sum_list (map (\<lambda>k. col_sum (group_of text_key f ''Category'' k) ''Sales'') ?ks)"
    by (simp add: category_summary_def sum_list_sort_key comp_def)
  also have "\<dots> = sum_list (map (\<lambda>k. sum_list (map (\<lambda>r. num_of (cell_at f ''Sales'' r))
       (filter (\<lambda>r. text_key (cell_at f ''Category'' r) = Some k) (rows f)))) ?ks)"
    by (simp only: col_sum_group_of)
  also have "\<dots> = sum_list (map (\<lambda>r. num_of (cell_at f ''Sales'' r))
       (filter (\<lambda>r. text_key (cell_at f ''Category'' r) \<noteq> None) (rows f)))"
    by (rule sum_by_groups) (auto simp: group_keys_distinct group_keys_set)
  finally show ?thesis .
qed



text \<open>
  With nothing selected the filtered view is the whole loaded sample. Its record with no
  Category counts in Total Sales and belongs to no category.
\<close>

lemma sample_unfiltered_totals:
  "total_sales (report (filtered_df sample_df [] [] [])) = 357 \<and>
   sum_list (map (fst \<circ> snd) (by_category (report (filtered_df sample_df [] [] [])))) = 350"
  by code_simp


subsection \<open>Top customers\<close>

lemma sorted_by_sales_desc:
  "sorted_wrt (\<lambda>a b. snd b \<le> snd a) (sort_key (\<lambda>(k, sales). - sales) (xs :: ('k \<times> rat) list))"
proof -
  have "sorted (map (\<lambda>(k, sales). - sales) (sort_key (\<lambda>(k, sales). - sales) xs))"
    by (rule sorted_sort_key)
  then show ?thesis
    by (simp add: sorted_map case_prod_unfold)
qed

text \<open>
  Claim C7. The Top-5 Customers output is the first five entries of the customers'
  summed Sales sorted in descending order of the sum: it has at most five entries (five,
  or all customers when there are fewer), its sums are non-increasing, each entry is a
  distinct customer of the filtered view with the sum of that customer's Sales, and no
  customer left out has a larger sum than a customer listed.
\<close>

theorem top_customers_top5:
  "top_customers f =
     take 5 (sort_key (\<lambda>(k, sales). - sales)
       (groupby_sum text_key f ''Customer Name'' ''Sales'')) \<and>
   length (top_customers f) \<le> 5 \<and>
   length (top_customers f) = min 5 (card {k. Text k \<in> set (column f ''Customer Name'')}) \<and>
   sorted_wrt (\<lambda>a b. snd b \<le> snd a) (top_customers f) \<and>
   distinct (map fst (top_customers f)) \<and>
   (\<forall>(k, sales) \<in> set (top_customers f).
      Text k \<in> set (column f ''Customer Name'') \<and>
      sales = sum_list (map (\<lambda>r. num_of (cell_at f ''Sales'' r))
                (filter (\<lambda>r. cell_at f ''Customer Name'' r = Text k) (rows f)))) \<and>
   (\<forall>k. Text k \<in> set (column f ''Customer Name'') \<and> k \<notin> fst ` set (top_customers f) \<longrightarrow>
      (\<forall>(k', sales') \<in> set (top_customers f).
         sum_list (map (\<lambda>r. num_of (cell_at f ''Sales'' r))
           (filter (\<lambda>r. cell_at f ''Customer Name'' r = Text k) (rows f))) \<le> sales'))"
proof -
  let ?g = "groupby_sum text_key f ''Customer Name'' ''Sales''"
  let ?L = "sort_key (\<lambda>(k, sales). - sales) ?g"
  let ?tot = "\<lambda>k. sum_list (map (\<lambda>r. num_of (cell_at f ''Sales'' r))
           (filter (\<lambda>r. cell_at f ''Customer Name'' r = Text k) (rows f)))"
  have t: "top_customers f = take 5 ?L"
    by (simp add: top_customers_def)
  have keys: "set (group_keys text_key f ''Customer Name'') =
      {k. Text k \<in> set (column f ''Customer Name'')}"
    by (auto simp: group_keys_set column_mem)
  have setg: "set ?g = (\<lambda>k. (k, ?tot k)) ` {k. Text k \<in> set (column f ''Customer Name'')}"
    by (simp add: set_groupby_sum keys col_sum_group_of)
  have dg: "distinct (map fst ?g)"
    by (simp only: map_fst_groupby_sum group_keys_distinct)
  have dL: "distinct (map fst ?L)"
    using dg by (metis distinct_map distinct_sort set_sort)
  have sL: "sorted_wrt (\<lambda>a b. snd b \<le> snd a) ?L"
    by (rule sorted_by_sales_desc)
  have 2: "length (top_customers f) \<le> 5"
    by (simp add: t)
  have "length ?g = card {k. Text k \<in> set (column f ''Customer Name'')}"
    using distinct_card[OF group_keys_distinct[of text_key f "''Customer Name''"]]
    by (simp add: groupby_sum_def keys)
  then have 3: "length (top_customers f) =
      min 5 (card {k. Text k \<in> set (column f ''Customer Name'')})"
    by (simp add: t min.commute)
  have 4: "sorted_wrt (\<lambda>a b. snd b \<le> snd a) (top_customers f)"
    unfolding t using sL by (rule sorted_wrt_take)
  have 5: "distinct (map fst (top_customers f))"
    unfolding t using dL by (simp add: take_map[symmetric] distinct_take)
  have sub: "set (top_customers f) \<subseteq> set ?g"
    unfolding t using set_take_subset[of 5 ?L] by simp
  have 6: "\<forall>(k, sales) \<in> set (top_customers f).
      Text k \<in> set (column f ''Customer Name'') \<and> sales = ?tot k"
    using sub unfolding setg by auto
  have 7: "\<forall>k. Text k \<in> set (column f ''Customer Name'') \<and> k \<notin> fst ` set (top_customers f) \<longrightarrow>
      (\<forall>(k', sales') \<in> set (top_customers f). ?tot k \<le> sales')"
  proof (intro allI impI)
    fix k
    assume h: "Text k \<in> set (column f ''Customer Name'') \<and> k \<notin> fst ` set (top_customers f)"
    then have "(k, ?tot k) \<in> set ?g" unfolding setg by blast
    then have inL: "(k, ?tot k) \<in> set ?L" by simp
    from h have "(k, ?tot k) \<notin> set (take 5 ?L)"
      unfolding t by force
    moreover have "set ?L = set (take 5 ?L) \<union> set (drop 5 ?L)"
      by (metis append_take_drop_id set_append)
    ultimately have inD: "(k, ?tot k) \<in> set (drop 5 ?L)"
      using inL by blast
    have "sorted_wrt (\<lambda>a b. snd b \<le> snd a) (take 5 ?L @ drop 5 ?L)"
      using sL by simp
    then have "\<forall>a \<in> set (take 5 ?L). \<forall>b \<in> set (drop 5 ?L). snd b \<le> snd a"
      unfolding sorted_wrt_append by blast
    with inD show "\<forall>(k', sales') \<in> set (top_customers f). ?tot k \<le> sales'"
      unfolding t by force
  qed
  show ?thesis by (intro conjI) (rule t 2 3 4 5 6 7)+
qed

theorem top_customers_top5_witness:
  "top_customers sample_df = [(''B'', 200), (''A'', 150), (''C'', 7)] \<and>
   length (top_customers sample_df) \<le> 5 \<and>
   sorted_wrt (\<lambda>a b. snd b \<le> snd a) (top_customers sample_df)"
proof -
  have "top_customers sample_df = [(''B'', 200), (''A'', 150), (''C'', 7)]"
    by code_simp
  with top_customers_top5[of sample_df] show ?thesis by blast
qed

subsection \<open>The empty result\<close>

lemma required_nonempty: "set required \<subseteq> set cols \<Longrightarrow> cols \<noteq> []"
  by (auto simp: required_def)


lemma sample_east:
  "rows (filtered_df sample_df [''East''] [] []) \<noteq> [] \<and>
   col_sum (filtered_df sample_df [''East''] [] []) ''Sales'' = 150 \<and>
   col_sum (filtered_df sample_df [''East''] [] []) ''Profit'' = 15 \<and>
   top_customers (filtered_df sample_df [''East''] [] []) = [(''A'', 150)] \<and>
   category_summary (filtered_df sample_df [''East''] [] []) =
     [(''Tech'', 100, 10), (''Furniture'', 50, 5)] \<and>
   sales_time (filtered_df sample_df [''East''] [] []) = [(18628, 150)]"
  by code_simp

lemma sample_nonexistent: "rows (filtered_df sample_df [''Nonexistent''] [] []) = []"
  by code_simp


end
